theory Spec2Isabelle
  imports Main
begin

section \<open>The muxgeist daemon: constants and C strings\<close>

text \<open>
  The daemon (\<^verbatim>\<open>src/muxgeist-daemon.c\<close>) keeps a table of tmux sessions, refreshes it
  by running tmux commands, and answers three text requests on a socket.

  A C string is modelled by the list of the bytes that precede its terminating NUL, so
  \<^verbatim>\<open>strcmp(a, b) == 0\<close> is equality of lists and \<^verbatim>\<open>strlen\<close> is \<open>length\<close>. The text that
  tmux prints is taken to hold no NUL byte. A \<^verbatim>\<open>char[n]\<close> field that was zeroed and is then
  written by \<^verbatim>\<open>strncpy(dst, src, n - 1)\<close> holds the first \<open>n - 1\<close> bytes of the source.
\<close>

definition MAX_SESSIONS :: nat where
  "MAX_SESSIONS = 32"

definition MAX_BUFFER_SIZE :: nat where
  "MAX_BUFFER_SIZE = 16384"

definition PATH_MAX :: nat where
  \<comment> \<open>from \<^verbatim>\<open>limits.h\<close>; 4096 on Linux\<close>
  "PATH_MAX = 4096"

definition NL :: char where
  "NL = CHR 0x0A"

definition SQ :: char where
  \<comment> \<open>the single quote of the shell command lines\<close>
  "SQ = CHR 0x27"

datatype muxgeist_error =
    ERROR_NONE
  | ERROR_SOCKET_CREATE
  | ERROR_SOCKET_BIND
  | ERROR_SOCKET_LISTEN
  | ERROR_MEMORY_ALLOC
  | ERROR_TMUX_CMD
  | ERROR_FILE_IO
  | ERROR_INVALID_SESSION
  | ERROR_UNKNOWN

definition strncpy :: "nat \<Rightarrow> string \<Rightarrow> string" where
  \<comment> \<open>\<^verbatim>\<open>strncpy(dst, src, n)\<close> into a field whose byte \<open>n\<close> is NUL\<close>
  "strncpy n src = take n src"

definition snprintf :: "nat \<Rightarrow> string \<Rightarrow> string" where
  \<comment> \<open>\<^verbatim>\<open>snprintf(dst, size, ...)\<close> of an already formatted text: what \<open>dst\<close> holds\<close>
  "snprintf n formatted = take (n - 1) formatted"

definition cstr :: "string \<Rightarrow> string" where
  \<comment> \<open>the C string at the start of a byte buffer\<close>
  "cstr bytes = takeWhile (\<lambda>c. c \<noteq> CHR 0x00) bytes"

fun strstr :: "string \<Rightarrow> string \<Rightarrow> bool" where
  \<comment> \<open>\<^verbatim>\<open>strstr(haystack, needle) != NULL\<close>\<close>
  "strstr [] needle = (needle = [])"
| "strstr (c # cs) needle = (take (length needle) (c # cs) = needle \<or> strstr cs needle)"

definition digit_char :: "nat \<Rightarrow> char" where
  "digit_char d = ''0123456789'' ! d"

fun string_of_nat :: "nat \<Rightarrow> string" where
  "string_of_nat n =
     (if n < 10 then [digit_char n]
      else string_of_nat (n div 10) @ [digit_char (n mod 10)])"

declare string_of_nat.simps [simp del]

definition string_of_int :: "int \<Rightarrow> string" where
  \<comment> \<open>\<^verbatim>\<open>%d\<close> and \<^verbatim>\<open>%ld\<close>\<close>
  "string_of_int i =
     (if i < 0 then CHR ''-'' # string_of_nat (nat (- i)) else string_of_nat (nat i))"

subsection \<open>Tokens of strtok\<close>

text \<open>
  \<^verbatim>\<open>strtok(s, "\n")\<close> and the calls \<^verbatim>\<open>strtok(NULL, "\n")\<close> that follow return the non-empty
  runs of \<open>s\<close> between newlines, one per call, then \<^verbatim>\<open>NULL\<close>. The function keeps one
  position for the whole process; it is modelled by the list of the tokens still to come.
\<close>

fun split_lines :: "string \<Rightarrow> string list" where
  "split_lines [] = [[]]"
| "split_lines (c # cs) =
     (if c = NL then [] # split_lines cs
      else (case split_lines cs of
              [] \<Rightarrow> [[c]]
            | f # fs \<Rightarrow> (c # f) # fs))"

definition strtok_tokens :: "string \<Rightarrow> string list" where
  "strtok_tokens s = filter (\<lambda>t. t \<noteq> []) (split_lines s)"

section \<open>Session registry\<close>

text \<open>
  \<^verbatim>\<open>session_context_t\<close>. The command history is left out: no function of the daemon reads
  or writes it. \<^verbatim>\<open>g_state.sessions[0 .. session_count)\<close> is the list \<open>registry\<close>; a
  pointer to an entry is its index.
\<close>

record session_context =
  session_id :: string
  current_cwd :: string
  current_pane :: string
  last_activity :: int
  scrollback :: string
  scrollback_len :: nat

type_synonym registry = "session_context list"

fun find_session :: "registry \<Rightarrow> string \<Rightarrow> nat option" where
  "find_session [] sid = None"
| "find_session (s # ss) sid =
     (if session_id s = sid then Some 0 else map_option Suc (find_session ss sid))"

definition new_session :: "int \<Rightarrow> string \<Rightarrow> session_context" where
  \<comment> \<open>the zeroed entry with its id and time stamp\<close>
  "new_session now sid =
     \<lparr>session_id = strncpy 63 sid, current_cwd = [], current_pane = [],
      last_activity = now, scrollback = [], scrollback_len = 0\<rparr>"

definition create_session :: "int \<Rightarrow> registry \<Rightarrow> string \<Rightarrow> nat option \<times> registry" where
  "create_session now reg sid =
     (if length reg \<ge> MAX_SESSIONS then (None, reg)
      else (Some (length reg), reg @ [new_session now sid]))"

definition create_if_absent :: "int \<Rightarrow> registry \<Rightarrow> string \<Rightarrow> nat option \<times> registry" where
  \<comment> \<open>lines 322 to 328 of \<^verbatim>\<open>scan_tmux_sessions\<close>: find, and create when not found\<close>
  "create_if_absent now reg sid =
     (case find_session reg sid of
        Some i \<Rightarrow> (Some i, reg)
      | None \<Rightarrow> create_session now reg sid)"

fun create_all :: "registry \<Rightarrow> (int \<times> string) list \<Rightarrow> registry" where
  "create_all reg [] = reg"
| "create_all reg ((now, sid) # calls) = create_all (snd (create_if_absent now reg sid)) calls"

section \<open>Request server\<close>

definition session_info :: "session_context \<Rightarrow> string" where
  \<comment> \<open>\<^verbatim>\<open>char session_info[256]\<close> of the list command\<close>
  "session_info s = snprintf 256 (session_id s @ '' ('' @ current_cwd s @ '')'' @ [NL])"

fun list_lines :: "registry \<Rightarrow> string \<Rightarrow> string" where
  \<comment> \<open>the loop of \<^verbatim>\<open>strncat\<close> calls\<close>
  "list_lines [] response = response"
| "list_lines (s # ss) response =
     list_lines ss (response @ take (MAX_BUFFER_SIZE - length response - 1) (session_info s))"

definition context_dump :: "session_context \<Rightarrow> string" where
  "context_dump s =
     ''Session: '' @ session_id s @ [NL] @
     ''CWD: '' @ current_cwd s @ [NL] @
     ''Pane: '' @ current_pane s @ [NL] @
     ''Last Activity: '' @ string_of_int (last_activity s) @ [NL] @
     ''Scrollback Length: '' @ string_of_nat (scrollback_len s) @ [NL] @
     ''Scrollback:'' @ [NL] @ scrollback s @ [NL]"

definition request_text :: "string \<Rightarrow> string" where
  \<comment> \<open>the request as the server reads it: \<^verbatim>\<open>buffer\<close> after \<^verbatim>\<open>recv\<close>, as a C string\<close>
  "request_text received = cstr (take (MAX_BUFFER_SIZE - 1) received)"

definition handle_client_request :: "registry \<Rightarrow> string \<Rightarrow> string option" where
  \<comment> \<open>the bytes sent back for the bytes received; \<open>None\<close> when \<^verbatim>\<open>recv\<close> gives nothing\<close>
  "handle_client_request reg received =
     (let bytes = take (MAX_BUFFER_SIZE - 1) received in
      if length bytes \<le> 0 then None
      else
        let buffer = request_text received in
        if buffer = ''status'' then
          Some (snprintf MAX_BUFFER_SIZE
                  (''OK: '' @ string_of_nat (length reg) @ '' sessions tracked''))
        else if take 8 buffer = ''context:'' then
          (case find_session reg (drop 8 buffer) of
             Some i \<Rightarrow> Some (snprintf MAX_BUFFER_SIZE (context_dump (reg ! i)))
           | None \<Rightarrow> Some (snprintf MAX_BUFFER_SIZE ''ERROR: Session not found''))
        else if buffer = ''list'' then Some (list_lines reg [])
        else Some (snprintf MAX_BUFFER_SIZE ''ERROR: Unknown command''))"

section \<open>External command runner\<close>

text \<open>
  \<^verbatim>\<open>popen(cmd, "r")\<close> either fails or starts a process; what the daemon can see of the
  process is the text on its standard output and, through \<^verbatim>\<open>pclose\<close>, its exit status.
  A \<open>shell\<close> gives the outcome of \<^verbatim>\<open>popen\<close> for each command line during one poll cycle.
  \<^verbatim>\<open>fread\<close> on the pipe delivers the bytes asked for unless the output ends first.
\<close>

record process =
  stdout :: string
  exit_status :: int

type_synonym shell = "string \<Rightarrow> process option"

definition fread :: "nat \<Rightarrow> string \<Rightarrow> string \<times> string" where
  \<comment> \<open>the bytes read and the bytes left in the pipe\<close>
  "fread n pipe = (take n pipe, drop n pipe)"

definition size_minus_one :: "nat \<Rightarrow> nat" where
  \<comment> \<open>\<^verbatim>\<open>output_size - 1\<close> in a \<^verbatim>\<open>size_t\<close> of 64 bits: zero wraps around\<close>
  "size_minus_one output_size = (if output_size = 0 then 2 ^ 64 - 1 else output_size - 1)"

function read_loop :: "nat \<Rightarrow> string \<Rightarrow> string \<Rightarrow> string" where
  "read_loop limit output pipe =
     (if length output < limit then
        (case fread (limit - length output) pipe of
           (chunk, rest) \<Rightarrow>
             if length chunk = 0 then output else read_loop limit (output @ chunk) rest)
      else output)"
  by pat_completeness auto
termination
proof (relation "measure (\<lambda>(limit, output, pipe). limit - length output)")
  show "wf (measure (\<lambda>(limit, output, pipe). limit - length output))"
    by simp
next
  fix limit :: nat and out pipe chunk rest :: string
  assume room: "length out < limit"
    and read: "(chunk, rest) = fread (limit - length out) pipe"
    and some: "length chunk \<noteq> 0"
  from some have "0 < length chunk"
    by simp
  with room have "limit - (length out + length chunk) < limit - length out"
    by arith
  then show "((limit, out @ chunk, rest), (limit, out, pipe))
      \<in> measure (\<lambda>(limit, output, pipe). limit - length output)"
    by simp
qed

declare read_loop.simps [simp del]

definition strip_newline :: "string \<Rightarrow> string" where
  \<comment> \<open>\<^verbatim>\<open>if (total_read > 0 && output[total_read - 1] == '\n') output[total_read - 1] = '\0'\<close>\<close>
  "strip_newline output =
     (if length output > 0 \<and> output ! (length output - 1) = NL
      then take (length output - 1) output else output)"

definition execute_tmux_command :: "shell \<Rightarrow> string \<Rightarrow> nat \<Rightarrow> muxgeist_error + string" where
  \<comment> \<open>\<open>Inr\<close> is \<^verbatim>\<open>ERROR_NONE\<close> with the text left in \<^verbatim>\<open>output\<close>\<close>
  "execute_tmux_command sh cmd output_size =
     (case sh cmd of
        None \<Rightarrow> Inl ERROR_TMUX_CMD
      | Some p \<Rightarrow> Inr (strip_newline (read_loop (size_minus_one output_size) [] (stdout p))))"

section \<open>Pane capture engine\<close>

definition list_panes_cmd :: "string \<Rightarrow> string" where
  "list_panes_cmd sid =
     snprintf 512 (''tmux list-panes -t '' @ sid @ '' -F '' @ [SQ] @
       ''#{window_index}.#{pane_index}:#{pane_title}:#{pane_current_command}'' @ [SQ])"

definition capture_pane_cmd :: "string \<Rightarrow> string \<Rightarrow> string" where
  "capture_pane_cmd sid pane_id =
     snprintf 512 (''tmux capture-pane -t '' @ sid @ '':'' @ pane_id @ '' -p'')"

definition capture_active_cmd :: "string \<Rightarrow> string" where
  "capture_active_cmd sid = snprintf 512 (''tmux capture-pane -t '' @ sid @ '' -p'')"

definition capture_active :: "shell \<Rightarrow> session_context \<Rightarrow> session_context" where
  \<comment> \<open>the capture of the active pane, at lines 174 to 182 and again at 267 to 275\<close>
  "capture_active sh s =
     (case sh (capture_active_cmd (session_id s)) of
        None \<Rightarrow> s
      | Some p \<Rightarrow>
          (case fread (MAX_BUFFER_SIZE - 1) (stdout p) of
             (content, rest) \<Rightarrow> s\<lparr>scrollback := content, scrollback_len := length content\<rparr>))"

text \<open>
  A line of the pane listing is \<^verbatim>\<open>window.pane:title:command\<close>. In the branch without a
  colon the code copies up to 31 bytes into \<^verbatim>\<open>pane_id\<close> and writes no terminator; the
  model takes byte 31 of that array to be NUL there, as it is after any earlier line with
  a colon.
\<close>

definition parse_pane_line :: "string \<Rightarrow> string \<times> string \<times> string" where
  \<comment> \<open>\<^verbatim>\<open>pane_id\<close>, \<^verbatim>\<open>pane_title\<close>, \<^verbatim>\<open>pane_command\<close>\<close>
  "parse_pane_line line =
     (if CHR '':'' \<in> set line then
        (let pane_id = strncpy 31 (takeWhile (\<lambda>c. c \<noteq> CHR '':'') line);
             after1 = drop 1 (dropWhile (\<lambda>c. c \<noteq> CHR '':'') line)
         in if CHR '':'' \<in> set after1 then
              (pane_id,
               strncpy 63 (takeWhile (\<lambda>c. c \<noteq> CHR '':'') after1),
               strncpy 63 (drop 1 (dropWhile (\<lambda>c. c \<noteq> CHR '':'') after1)))
            else (pane_id, strncpy 63 after1, []))
      else (strncpy 31 line, ''shell'', []))"

definition pane_header :: "string \<Rightarrow> string \<Rightarrow> string" where
  "pane_header pane_id pane_title =
     [NL] @ ''=== PANE '' @ pane_id @ '' ('' @ pane_title @ '') ==='' @ [NL]"

definition append_pane :: "string \<Rightarrow> string \<Rightarrow> string \<Rightarrow> session_context \<Rightarrow> session_context" where
  \<comment> \<open>lines 233 to 255: the header, then the content cut to the room that is left\<close>
  "append_pane pane_id pane_title temp_content s =
     (let content_len = length temp_content;
          header = pane_header pane_id pane_title;
          header_len = length header;
          s1 = s\<lparr>scrollback := take (scrollback_len s) (scrollback s) @
                                snprintf (MAX_BUFFER_SIZE - scrollback_len s) header\<rparr>;
          s2 = (if header_len > 0 \<and> scrollback_len s1 + header_len < MAX_BUFFER_SIZE
                then s1\<lparr>scrollback_len := scrollback_len s1 + header_len\<rparr> else s1);
          available_space = MAX_BUFFER_SIZE - scrollback_len s2 - 1;
          copy_len = (if content_len < available_space then content_len else available_space)
      in if copy_len > 0 then
           s2\<lparr>scrollback := take (scrollback_len s2) (scrollback s2) @ take copy_len temp_content,
              scrollback_len := scrollback_len s2 + copy_len\<rparr>
         else s2)"

definition pane_step :: "shell \<Rightarrow> string \<Rightarrow> session_context \<times> nat \<Rightarrow> session_context \<times> nat" where
  \<comment> \<open>one pass through the body of the loop over the pane lines; the number is \<^verbatim>\<open>pane_count\<close>\<close>
  "pane_step sh line st =
     (case st of (s, pane_count) \<Rightarrow>
      (case parse_pane_line line of (pane_id, pane_title, pane_command) \<Rightarrow>
         if strstr pane_title ''muxgeist'' then (s, pane_count)
         else
           (case sh (capture_pane_cmd (session_id s) pane_id) of
              None \<Rightarrow> (s, pane_count)
            | Some p \<Rightarrow>
                (case fread (MAX_BUFFER_SIZE - 1) (stdout p) of
                   (temp_content, rest) \<Rightarrow>
                     if length temp_content > 10
                     then (append_pane pane_id pane_title temp_content s, pane_count + 1)
                     else (s, pane_count)))))"

fun pane_loop ::
  "shell \<Rightarrow> string list \<Rightarrow> session_context \<times> nat \<Rightarrow> (session_context \<times> nat) \<times> string list" where
  \<comment> \<open>the list is the current line and the tokens after it; the result holds the tokens
      that strtok has not yet returned when the loop ends\<close>
  "pane_loop sh [] st = (st, [])"
| "pane_loop sh (line # rest) st =
     (if scrollback_len (fst st) < MAX_BUFFER_SIZE - 500
      then pane_loop sh rest (pane_step sh line st)
      else (st, rest))"

definition capture_all_panes ::
  "shell \<Rightarrow> string list \<Rightarrow> session_context \<Rightarrow> muxgeist_error \<times> session_context \<times> string list" where
  \<comment> \<open>the string list is the state of strtok before and after the call\<close>
  "capture_all_panes sh tokens session =
     (let s = session\<lparr>scrollback := [], scrollback_len := 0\<rparr> in
      case execute_tmux_command sh (list_panes_cmd (session_id s)) 2048 of
        Inl e \<Rightarrow> (ERROR_TMUX_CMD, s, tokens)
      | Inr pane_list \<Rightarrow>
          if length pane_list = 0 then (ERROR_NONE, capture_active sh s, tokens)
          else
            (case pane_loop sh (strtok_tokens pane_list) (s, 0) of
               ((s', pane_count), tokens') \<Rightarrow>
                 (ERROR_NONE, if pane_count = 0 then capture_active sh s' else s', tokens')))"

definition pane_id_of :: "string \<Rightarrow> string" where
  \<comment> \<open>the \<^verbatim>\<open>pane_id\<close> that the loop takes from a line of the listing\<close>
  "pane_id_of line = fst (parse_pane_line line)"

definition pane_title_of :: "string \<Rightarrow> string" where
  \<comment> \<open>its \<^verbatim>\<open>pane_title\<close>\<close>
  "pane_title_of line = fst (snd (parse_pane_line line))"

definition self_excluded :: "string \<Rightarrow> bool" where
  \<comment> \<open>the test of line 216: \<^verbatim>\<open>strstr(pane_title, "muxgeist") != NULL\<close>\<close>
  "self_excluded line \<longleftrightarrow> strstr (pane_title_of line) ''muxgeist''"


definition buffer_ok :: "session_context \<Rightarrow> bool" where
  \<comment> \<open>the recorded length is the length of the text and leaves room for the terminator\<close>
  "buffer_ok s \<longleftrightarrow> scrollback_len s = length (scrollback s) \<and> scrollback_len s < MAX_BUFFER_SIZE"

subsection \<open>A tmux server to run the engine against\<close>






section \<open>Session scanner\<close>

definition update_session_context ::
  "shell \<Rightarrow> int \<Rightarrow> string list \<Rightarrow> session_context \<Rightarrow> muxgeist_error \<times> session_context \<times> string list" where
  "update_session_context sh now tokens session =
     (let s1 = (case execute_tmux_command sh
                       (snprintf 256 (''tmux display-message -t '' @ session_id session @
                          '' -p '' @ [SQ] @ ''#{pane_id}'' @ [SQ])) MAX_BUFFER_SIZE of
                  Inr output \<Rightarrow> session\<lparr>current_pane := strncpy 15 output\<rparr>
                | Inl e \<Rightarrow> session);
          s2 = (case execute_tmux_command sh
                       (snprintf 256 (''tmux display-message -t '' @ session_id s1 @
                          '' -p '' @ [SQ] @ ''#{pane_current_path}'' @ [SQ])) MAX_BUFFER_SIZE of
                  Inr output \<Rightarrow> s1\<lparr>current_cwd := strncpy (PATH_MAX - 1) output\<rparr>
                | Inl e \<Rightarrow> s1)
      in case capture_all_panes sh tokens s2 of
           (rc, s3, tokens') \<Rightarrow> (rc, s3\<lparr>last_activity := now\<rparr>, tokens'))"

text \<open>
  The loop of \<^verbatim>\<open>scan_tmux_sessions\<close> asks strtok for its next session name after
  \<^verbatim>\<open>update_session_context\<close> has returned, and \<^verbatim>\<open>capture_all_panes\<close> has by then pointed
  strtok at its own pane listing: the next name is the next token of that listing, if one
  is left. The model takes the bytes of the listing to be still in place when strtok
  reads them. Since the tokens to come can grow again, the loop is given fuel, and
  \<open>None\<close> is a loop that has not ended within it.
\<close>

fun scan_loop :: "nat \<Rightarrow> shell \<Rightarrow> int \<Rightarrow> string list \<Rightarrow> registry \<Rightarrow> registry option" where
  "scan_loop fuel sh now [] reg = Some reg"
| "scan_loop 0 sh now (line # rest) reg = None"
| "scan_loop (Suc fuel) sh now (line # rest) reg =
     (case create_if_absent now reg line of
        (None, reg1) \<Rightarrow> scan_loop fuel sh now rest reg1
      | (Some i, reg1) \<Rightarrow>
          (case update_session_context sh now rest (reg1 ! i) of
             (rc, s, rest') \<Rightarrow> scan_loop fuel sh now rest' (reg1[i := s])))"

definition list_sessions_cmd :: string where
  "list_sessions_cmd = ''tmux list-sessions -F '' @ [SQ] @ ''#{session_name}'' @ [SQ]"

definition scan_tmux_sessions ::
  "nat \<Rightarrow> shell \<Rightarrow> int \<Rightarrow> registry \<Rightarrow> (muxgeist_error \<times> registry) option" where
  "scan_tmux_sessions fuel sh now reg =
     (case execute_tmux_command sh list_sessions_cmd MAX_BUFFER_SIZE of
        Inl rc \<Rightarrow> Some (rc, reg)
      | Inr output \<Rightarrow>
          map_option (\<lambda>reg'. (ERROR_NONE, reg')) (scan_loop fuel sh now (strtok_tokens output) reg))"

record poll_cycle =
  cycle_fuel :: nat
  cycle_shell :: shell
  cycle_now :: int

fun poll_cycles :: "poll_cycle list \<Rightarrow> registry \<Rightarrow> registry option" where
  \<comment> \<open>the scans of successive passes through the main loop\<close>
  "poll_cycles [] reg = Some reg"
| "poll_cycles (c # cs) reg =
     (case scan_tmux_sessions (cycle_fuel c) (cycle_shell c) (cycle_now c) reg of
        None \<Rightarrow> None
      | Some (rc, reg') \<Rightarrow> poll_cycles cs reg')"

section \<open>Entries kept across scans, and concrete inputs\<close>

definition keeps_entries :: "registry \<Rightarrow> registry \<Rightarrow> bool" where
  \<comment> \<open>every entry of the first registry is still at its index, under its id, in the second\<close>
  "keeps_entries reg reg' \<longleftrightarrow>
     length reg \<le> length reg' \<and> take (length reg) (map session_id reg') = map session_id reg"

definition sessions_only_shell :: "string \<Rightarrow> shell" where
  \<comment> \<open>tmux lists these session names; any other command prints nothing and fails\<close>
  "sessions_only_shell names =
     (\<lambda>cmd. if cmd = list_sessions_cmd then Some \<lparr>stdout = names, exit_status = 0\<rparr>
            else Some \<lparr>stdout = [], exit_status = 1\<rparr>)"

definition big_session :: session_context where
  \<comment> \<open>a session whose last capture filled the scrollback buffer\<close>
  "big_session =
     \<lparr>session_id = ''main'', current_cwd = ''/home/u'', current_pane = ''%0'',
      last_activity = 0, scrollback = replicate 16383 (CHR ''a''), scrollback_len = 16383\<rparr>"

definition deep_session :: session_context where
  \<comment> \<open>a session whose working directory has a path of 300 bytes\<close>
  "deep_session =
     \<lparr>session_id = ''main'', current_cwd = CHR ''/'' # replicate 299 (CHR ''d''),
      current_pane = ''%0'', last_activity = 0, scrollback = [], scrollback_len = 0\<rparr>"

definition two_sessions_cycle :: poll_cycle where
  \<comment> \<open>a poll cycle in which tmux lists the sessions main and work\<close>
  "two_sessions_cycle =
     \<lparr>cycle_fuel = Suc (Suc 0),
      cycle_shell = sessions_only_shell (''main'' @ [NL] @ ''work'' @ [NL]),
      cycle_now = 7\<rparr>"




definition long_name :: string where
  \<comment> \<open>a session name of 64 bytes\<close>
  "long_name = ''session-01234567890123456789012345678901234567890123456789abcdef''"

definition long_name_cycle :: poll_cycle where
  \<comment> \<open>a poll cycle in which tmux lists the one session of that name\<close>
  "long_name_cycle =
     \<lparr>cycle_fuel = Suc 0, cycle_shell = sessions_only_shell (long_name @ [NL]), cycle_now = 7\<rparr>"

definition nearly_full_session :: session_context where
  \<comment> \<open>a session in the middle of a capture, with 15000 bytes already in the scrollback\<close>
  "nearly_full_session =
     \<lparr>session_id = ''main'', current_cwd = ''/home/u'', current_pane = ''%0'',
      last_activity = 0, scrollback = replicate 15000 (CHR ''x''), scrollback_len = 15000\<rparr>"

definition verbose_shell :: shell where
  \<comment> \<open>every command prints 2000 bytes\<close>
  "verbose_shell = (\<lambda>cmd. Some \<lparr>stdout = replicate 2000 (CHR ''y''), exit_status = 0\<rparr>)"

section \<open>Properties of the registry\<close>

lemma find_session_bound:
  "find_session reg sid = Some i \<Longrightarrow> i < length reg"
  by (induction reg arbitrary: i) (auto split: if_splits)

lemma find_session_id:
  "find_session reg sid = Some i \<Longrightarrow> session_id (reg ! i) = sid"
  by (induction reg arbitrary: i) (auto split: if_splits)

lemma find_session_None:
  "find_session reg sid = None \<longleftrightarrow> sid \<notin> set (map session_id reg)"
  by (induction reg) auto

lemma new_session_id: "session_id (new_session now sid) = take 63 sid"
  by (simp add: new_session_def strncpy_def)

lemma create_if_absent_length:
  "length reg \<le> MAX_SESSIONS \<Longrightarrow> length (snd (create_if_absent now reg sid)) \<le> MAX_SESSIONS"
  by (auto simp: create_if_absent_def create_session_def split: option.splits)

lemma create_if_absent_full:
  "length reg \<ge> MAX_SESSIONS \<Longrightarrow> snd (create_if_absent now reg sid) = reg"
  by (auto simp: create_if_absent_def create_session_def split: option.splits)

lemma create_all_length:
  "length reg \<le> MAX_SESSIONS \<Longrightarrow> length (create_all reg calls) \<le> MAX_SESSIONS"
proof (induction calls arbitrary: reg)
  case Nil
  then show ?case by simp
next
  case (Cons c calls)
  obtain now sid where c: "c = (now, sid)" by (cases c)
  from Cons.prems have "length (snd (create_if_absent now reg sid)) \<le> MAX_SESSIONS"
    by (rule create_if_absent_length)
  then show ?case using Cons.IH c by simp
qed

lemma create_all_full:
  "length reg \<ge> MAX_SESSIONS \<Longrightarrow> create_all reg calls = reg"
proof (induction calls arbitrary: reg)
  case Nil
  then show ?case by simp
next
  case (Cons c calls)
  obtain now sid where c: "c = (now, sid)" by (cases c)
  show ?case using Cons c by (simp add: create_if_absent_full)
qed

text \<open>
  C1. The registry never holds more than \<open>MAX_SESSIONS\<close> entries, whatever ids
  createIfAbsent is called with. Once it is full, a call for an id that is not in it
  returns the null result and leaves the registry as it was, so that id is the id of
  no entry and the answer to \<^verbatim>\<open>list\<close> is the one from before the call; no later sequence
  of calls changes a full registry.
\<close>

theorem registry_capacity:
  "length (create_all [] calls) \<le> MAX_SESSIONS \<and>
   (length reg \<ge> MAX_SESSIONS \<and> find_session reg sid = None \<longrightarrow>
      create_if_absent now reg sid = (None, reg) \<and>
      sid \<notin> set (map session_id (snd (create_if_absent now reg sid))) \<and>
      handle_client_request (snd (create_if_absent now reg sid)) ''list'' =
        handle_client_request reg ''list'' \<and>
      create_all reg calls = reg)"
proof (intro conjI impI)
  show "length (create_all [] calls) \<le> MAX_SESSIONS"
    by (rule create_all_length) simp
next
  assume full: "length reg \<ge> MAX_SESSIONS \<and> find_session reg sid = None"
  then show none: "create_if_absent now reg sid = (None, reg)"
    by (simp add: create_if_absent_def create_session_def)
  from full show "sid \<notin> set (map session_id (snd (create_if_absent now reg sid)))"
    unfolding none using find_session_None [of reg sid] by simp
  show "handle_client_request (snd (create_if_absent now reg sid)) ''list'' =
        handle_client_request reg ''list''"
    unfolding none by simp
  from full show "create_all reg calls = reg"
    by (simp add: create_all_full)
qed

theorem registry_capacity_witness:
  "length (create_all [] [(0, ''a''), (1, ''a''), (2, ''b'')]) \<le> MAX_SESSIONS \<and>
   MAX_SESSIONS \<le> length (replicate 32 (new_session 0 ''x'')) \<and>
   find_session (replicate 32 (new_session 0 ''x'')) ''y'' = None \<and>
   create_if_absent 5 (replicate 32 (new_session 0 ''x'')) ''y'' =
     (None, replicate 32 (new_session 0 ''x'')) \<and>
   ''y'' \<notin> set (map session_id
             (snd (create_if_absent 5 (replicate 32 (new_session 0 ''x'')) ''y''))) \<and>
   handle_client_request
       (snd (create_if_absent 5 (replicate 32 (new_session 0 ''x'')) ''y'')) ''list'' =
     handle_client_request (replicate 32 (new_session 0 ''x'')) ''list'' \<and>
   create_all (replicate 32 (new_session 0 ''x'')) [(0, ''a''), (1, ''a''), (2, ''b'')] =
     replicate 32 (new_session 0 ''x'')"
proof -
  have full: "MAX_SESSIONS \<le> length (replicate 32 (new_session 0 ''x'')) \<and>
      find_session (replicate 32 (new_session 0 ''x'')) ''y'' = None"
    by (simp add: MAX_SESSIONS_def find_session_None new_session_def strncpy_def)
  from registry_capacity [of "[(0, ''a''), (1, ''a''), (2, ''b'')]"
      "replicate 32 (new_session 0 ''x'')" "''y''" 5] full
  show ?thesis by blast
qed

section \<open>Properties of the external command runner\<close>

lemma read_loop_take:
  "read_loop limit out pipe = out @ take (limit - length out) pipe"
proof (induction limit out pipe rule: read_loop.induct)
  case (1 limit out pipe)
  show ?case
  proof (cases "length out < limit")
    case False
    then show ?thesis by (simp add: read_loop.simps)
  next
    case room: True
    show ?thesis
    proof (cases "take (limit - length out) pipe = []")
      case True
      with room show ?thesis
        by (subst read_loop.simps) (simp add: fread_def)
    next
      case False
      with room have "read_loop limit out pipe =
          read_loop limit (out @ take (limit - length out) pipe) (drop (limit - length out) pipe)"
        by (subst read_loop.simps) (simp add: fread_def)
      also have "\<dots> = (out @ take (limit - length out) pipe) @
          take (limit - length (out @ take (limit - length out) pipe)) (drop (limit - length out) pipe)"
        using room False by (intro "1.IH") (auto simp: fread_def)
      also have "\<dots> = out @ take (limit - length out) pipe"
        by (auto simp: min_def)
      finally show ?thesis .
    qed
  qed
qed

lemma strip_newline_last:
  "strip_newline s = (if s \<noteq> [] \<and> last s = NL then butlast s else s)"
  by (auto simp: strip_newline_def last_conv_nth butlast_conv_take)

text \<open>
  C7. With a buffer of \<open>output_size\<close> bytes (at least one), the runner returns an error
  exactly when \<^verbatim>\<open>popen\<close> cannot start the process. Otherwise it returns the first
  \<open>output_size - 1\<close> bytes of the standard output, the rest being dropped without an
  error, less one final newline if the captured text ends in one: a single newline,
  also when two end the text. The exit status of the process changes nothing.
\<close>

theorem execute_tmux_command_contract:
  "0 < output_size \<Longrightarrow>
   ((\<exists>e. execute_tmux_command sh cmd output_size = Inl e) \<longleftrightarrow> sh cmd = None) \<and>
   (sh cmd = None \<longrightarrow> execute_tmux_command sh cmd output_size = Inl ERROR_TMUX_CMD) \<and>
   (\<forall>p. sh cmd = Some p \<longrightarrow>
      (let captured = take (output_size - 1) (stdout p) in
         execute_tmux_command sh cmd output_size =
           Inr (if captured \<noteq> [] \<and> last captured = NL then butlast captured else captured)) \<and>
      (\<forall>text. execute_tmux_command sh cmd output_size = Inr text \<longrightarrow> length text \<le> output_size - 1) \<and>
      (\<forall>status. execute_tmux_command (sh(cmd \<mapsto> p\<lparr>exit_status := status\<rparr>)) cmd output_size =
         execute_tmux_command sh cmd output_size))"
  by (auto simp: execute_tmux_command_def read_loop_take strip_newline_last size_minus_one_def Let_def
      split: option.splits)
theorem execute_tmux_command_contract_witness:
  "0 < (16::nat) \<and>
   execute_tmux_command
     (\<lambda>c. if c = ''tmux ls'' then Some \<lparr>stdout = ''ab'' @ [NL, NL], exit_status = 1\<rparr> else None)
     ''tmux ls'' 16 = Inr (''ab'' @ [NL]) \<and>
   execute_tmux_command
     (\<lambda>c. if c = ''tmux ls'' then Some \<lparr>stdout = ''ab'' @ [NL, NL], exit_status = 1\<rparr> else None)
     ''tmux ls'' 4 = Inr ''ab'' \<and>
   execute_tmux_command
     (\<lambda>c. if c = ''tmux ls'' then Some \<lparr>stdout = ''ab'' @ [NL, NL], exit_status = 1\<rparr> else None)
     ''tmux'' 16 = Inl ERROR_TMUX_CMD"
proof -
  let ?sh = "\<lambda>c. if c = ''tmux ls''
    then Some \<lparr>stdout = ''ab'' @ [NL, NL], exit_status = 1\<rparr> else None"
  have started: "?sh ''tmux ls'' = Some \<lparr>stdout = ''ab'' @ [NL, NL], exit_status = 1\<rparr>"
    by simp
  have failed: "?sh ''tmux'' = None"
    by simp
  have wide: "0 < (16::nat)" and narrow: "0 < (4::nat)"
    by simp_all
  from execute_tmux_command_contract [OF wide, of ?sh "''tmux ls''"] started
  have "let captured = take (16 - 1) (''ab'' @ [NL, NL]) in
      execute_tmux_command ?sh ''tmux ls'' 16 =
        Inr (if captured \<noteq> [] \<and> last captured = NL then butlast captured else captured)"
    by simp
  then have first: "execute_tmux_command ?sh ''tmux ls'' 16 = Inr (''ab'' @ [NL])"
    by simp
  from execute_tmux_command_contract [OF narrow, of ?sh "''tmux ls''"] started
  have "let captured = take (4 - 1) (''ab'' @ [NL, NL]) in
      execute_tmux_command ?sh ''tmux ls'' 4 =
        Inr (if captured \<noteq> [] \<and> last captured = NL then butlast captured else captured)"
    by simp
  then have second: "execute_tmux_command ?sh ''tmux ls'' 4 = Inr ''ab''"
    by simp
  from execute_tmux_command_contract [OF wide, of ?sh "''tmux''"] failed
  have third: "execute_tmux_command ?sh ''tmux'' 16 = Inl ERROR_TMUX_CMD"
    by blast
  from wide first second third show ?thesis
    by blast
qed

section \<open>Properties of the request server\<close>

lemma string_of_nat_length: "length (string_of_nat n) \<le> n + 1"
proof (induction n rule: string_of_nat.induct)
  case (1 n)
  show ?case
  proof (cases "n < 10")
    case True
    then show ?thesis by (subst string_of_nat.simps) simp
  next
    case False
    with 1 have "length (string_of_nat (n div 10)) \<le> n div 10 + 1" by simp
    moreover from False have "n div 10 + 1 \<le> n" by arith
    ultimately show ?thesis using False by (subst string_of_nat.simps) simp
  qed
qed

lemma request_text_plain:
  "CHR 0x00 \<notin> set req \<Longrightarrow> length req < MAX_BUFFER_SIZE \<Longrightarrow> request_text req = req"
  by (auto simp: request_text_def cstr_def MAX_BUFFER_SIZE_def takeWhile_eq_all_conv)

lemma handle_status:
  assumes "length reg \<le> MAX_SESSIONS"
  shows "handle_client_request reg ''status'' =
    Some (''OK: '' @ string_of_nat (length reg) @ '' sessions tracked'')"
proof -
  have "length (string_of_nat (length reg)) \<le> 33"
    using string_of_nat_length [of "length reg"] assms by (simp add: MAX_SESSIONS_def)
  then show ?thesis
    by (simp add: handle_client_request_def request_text_def cstr_def snprintf_def
        MAX_BUFFER_SIZE_def)
qed

lemma handle_not_found:
  assumes "req \<noteq> []" "take 8 (request_text req) = ''context:''"
    "find_session reg (drop 8 (request_text req)) = None"
  shows "handle_client_request reg req = Some ''ERROR: Session not found''"
proof -
  from assms(2) have "request_text req \<noteq> ''status''" by auto
  with assms show ?thesis
    by (simp add: handle_client_request_def snprintf_def MAX_BUFFER_SIZE_def)
qed

lemma handle_unknown:
  assumes "req \<noteq> []" "request_text req \<noteq> ''status''" "request_text req \<noteq> ''list''"
    "take 8 (request_text req) \<noteq> ''context:''"
  shows "handle_client_request reg req = Some ''ERROR: Unknown command''"
  using assms by (simp add: handle_client_request_def snprintf_def MAX_BUFFER_SIZE_def)

lemma handle_list_main:
  assumes "session_id s = ''main''" "current_cwd s = ''/home/u''"
  shows "handle_client_request [s] ''list'' = Some (''main (/home/u)'' @ [NL])"
  using assms
  by (simp add: handle_client_request_def request_text_def cstr_def session_info_def snprintf_def
      MAX_BUFFER_SIZE_def)

text \<open>
  C8. The answers of the request server. \<^verbatim>\<open>status\<close> on an empty registry gives exactly
  \<^verbatim>\<open>OK: 0 sessions tracked\<close>, and with \<open>N\<close> tracked sessions the same text with \<open>N\<close> in
  decimal. A \<^verbatim>\<open>context:\<close> request for an id that no entry has gives exactly
  \<^verbatim>\<open>ERROR: Session not found\<close>. A request that is not \<^verbatim>\<open>status\<close>, not \<^verbatim>\<open>list\<close> and does
  not start with \<^verbatim>\<open>context:\<close> gives exactly \<^verbatim>\<open>ERROR: Unknown command\<close>. \<^verbatim>\<open>list\<close> with the one
  session \<^verbatim>\<open>main\<close> in \<^verbatim>\<open>/home/u\<close> gives exactly that line and a newline. The request is
  read as the C string at the start of what \<^verbatim>\<open>recv\<close> delivered, which for a text without
  NUL that fits the buffer is the text itself.
\<close>

theorem protocol_table:
  "handle_client_request [] ''status'' = Some ''OK: 0 sessions tracked'' \<and>
   (length reg \<le> MAX_SESSIONS \<longrightarrow>
      handle_client_request reg ''status'' =
        Some (''OK: '' @ string_of_nat (length reg) @ '' sessions tracked'')) \<and>
   (req \<noteq> [] \<and> take 8 (request_text req) = ''context:'' \<and>
    find_session reg (drop 8 (request_text req)) = None \<longrightarrow>
      handle_client_request reg req = Some ''ERROR: Session not found'') \<and>
   (req \<noteq> [] \<and> request_text req \<noteq> ''status'' \<and> request_text req \<noteq> ''list'' \<and>
    take 8 (request_text req) \<noteq> ''context:'' \<longrightarrow>
      handle_client_request reg req = Some ''ERROR: Unknown command'') \<and>
   (session_id s = ''main'' \<and> current_cwd s = ''/home/u'' \<longrightarrow>
      handle_client_request [s] ''list'' = Some (''main (/home/u)'' @ [NL])) \<and>
   (CHR 0x00 \<notin> set req \<and> length req < MAX_BUFFER_SIZE \<longrightarrow> request_text req = req)"
proof (intro conjI impI)
  have "handle_client_request [] ''status'' =
      Some (''OK: '' @ string_of_nat (length ([] :: registry)) @ '' sessions tracked'')"
    by (rule handle_status) simp
  then show "handle_client_request [] ''status'' = Some ''OK: 0 sessions tracked''"
    by (simp add: string_of_nat.simps digit_char_def)
qed (simp_all add: handle_status handle_not_found handle_unknown handle_list_main
    request_text_plain)

theorem protocol_table_witness:
  "handle_client_request [] ''status'' = Some ''OK: 0 sessions tracked'' \<and>
   handle_client_request [new_session 0 ''main'', new_session 0 ''work''] ''status'' =
     Some ''OK: 2 sessions tracked'' \<and>
   handle_client_request [new_session 0 ''main'', new_session 0 ''work''] ''context:ghost'' =
     Some ''ERROR: Session not found'' \<and>
   handle_client_request [new_session 0 ''main'', new_session 0 ''work''] ''bogus'' =
     Some ''ERROR: Unknown command'' \<and>
   handle_client_request [(new_session 0 ''main'')\<lparr>current_cwd := ''/home/u''\<rparr>] ''list'' =
     Some (''main (/home/u)'' @ [NL])"
proof -
  let ?reg = "[new_session 0 ''main'', new_session 0 ''work'']"
  let ?s = "(new_session 0 ''main'')\<lparr>current_cwd := ''/home/u''\<rparr>"
  have ghost: "request_text ''context:ghost'' = ''context:ghost''"
    and bogus: "request_text ''bogus'' = ''bogus''"
    by (simp_all add: request_text_def cstr_def MAX_BUFFER_SIZE_def)
  have small: "length ?reg \<le> MAX_SESSIONS"
    by (simp add: MAX_SESSIONS_def)
  have absent: "find_session ?reg (drop 8 (request_text ''context:ghost'')) = None"
    by (simp add: ghost new_session_def strncpy_def)
  have main: "session_id ?s = ''main'' \<and> current_cwd ?s = ''/home/u''"
    by (simp add: new_session_def strncpy_def)
  note table = protocol_table [of ?reg _ ?s]
  from table [of "''bogus''"]
  have "handle_client_request [] ''status'' = Some ''OK: 0 sessions tracked''"
    by blast
  moreover from table [of "''bogus''"] small
  have "handle_client_request ?reg ''status'' =
      Some (''OK: '' @ string_of_nat (length ?reg) @ '' sessions tracked'')"
    by blast
  then have "handle_client_request ?reg ''status'' = Some ''OK: 2 sessions tracked''"
    by (simp add: string_of_nat.simps digit_char_def)
  moreover from table [of "''context:ghost''"] absent ghost
  have "handle_client_request ?reg ''context:ghost'' = Some ''ERROR: Session not found''"
    by simp
  moreover from table [of "''bogus''"] bogus
  have "handle_client_request ?reg ''bogus'' = Some ''ERROR: Unknown command''"
    by simp
  moreover from table [of "''bogus''"] main
  have "handle_client_request [?s] ''list'' = Some (''main (/home/u)'' @ [NL])"
    by blast
  ultimately show ?thesis
    by blast
qed

lemma context_dump_big_length: "length (context_dump big_session) = 16474"
  by (simp add: context_dump_def big_session_def string_of_int_def string_of_nat.simps)

lemma context_dump_big_hd: "hd (take 16383 (context_dump big_session)) = CHR ''S''"
  by (simp add: context_dump_def)

text \<open>
  C9, as stated, fails: for a session whose scrollback holds 16383 bytes the dump has
  16474 bytes and the response buffer holds 16383, so the response is not the whole dump.
  It is as long as the scrollback alone and is not the scrollback, so the scrollback
  is not a part of it.
\<close>

theorem context_dump_cut_counterexample:
  "find_session [big_session] ''main'' = Some 0 \<and>
   length (scrollback big_session) < MAX_BUFFER_SIZE \<and>
   handle_client_request [big_session] ''context:main'' \<noteq> Some (context_dump big_session) \<and>
   length (the (handle_client_request [big_session] ''context:main'')) =
     length (scrollback big_session) \<and>
   the (handle_client_request [big_session] ''context:main'') \<noteq> scrollback big_session"
proof -
  have found: "find_session [big_session] ''main'' = Some 0"
    by (simp add: big_session_def)
  have plain: "request_text ''context:main'' = ''context:main''"
    by (simp add: request_text_def cstr_def MAX_BUFFER_SIZE_def)
  have answer: "handle_client_request [big_session] ''context:main'' =
      Some (take 16383 (context_dump big_session))"
    using found by (simp add: handle_client_request_def plain snprintf_def MAX_BUFFER_SIZE_def)
  have cut: "length (take 16383 (context_dump big_session)) = 16383"
    by (simp add: context_dump_big_length)
  have whole: "take 16383 (context_dump big_session) \<noteq> context_dump big_session"
  proof
    assume "take 16383 (context_dump big_session) = context_dump big_session"
    then have "length (take 16383 (context_dump big_session)) = length (context_dump big_session)"
      by simp
    with cut show False
      by (simp add: context_dump_big_length)
  qed
  have sb: "scrollback big_session = replicate 16383 (CHR ''a'')"
    by (simp add: big_session_def)
  have other: "take 16383 (context_dump big_session) \<noteq> scrollback big_session"
  proof
    assume "take 16383 (context_dump big_session) = scrollback big_session"
    then have "hd (take 16383 (context_dump big_session)) = hd (replicate 16383 (CHR ''a''))"
      by (simp only: sb)
    then show False
      by (simp only: context_dump_big_hd) simp
  qed
  have small: "length (scrollback big_session) < MAX_BUFFER_SIZE"
    by (simp add: sb MAX_BUFFER_SIZE_def)
  have same: "length (the (handle_client_request [big_session] ''context:main'')) =
      length (scrollback big_session)"
    by (simp only: answer option.sel cut sb length_replicate)
  from found small whole other same show ?thesis
    by (simp only: answer option.sel option.inject simp_thms)
qed

text \<open>
  C9, amended. For a \<^verbatim>\<open>context:\<close> request whose id an entry has, the response is the dump
  of the first such entry (the lines \<^verbatim>\<open>Session:\<close>, \<^verbatim>\<open>CWD:\<close>, \<^verbatim>\<open>Pane:\<close>, \<^verbatim>\<open>Last Activity:\<close>,
  \<^verbatim>\<open>Scrollback Length:\<close>, \<^verbatim>\<open>Scrollback:\<close> and the scrollback text) cut to the 16383 bytes the
  response buffer holds; it is the whole dump whenever the dump is shorter than the
  buffer.
\<close>

theorem context_response:
  "req \<noteq> [] \<and> take 8 (request_text req) = ''context:'' \<and>
   find_session reg (drop 8 (request_text req)) = Some i \<longrightarrow>
     i < length reg \<and> session_id (reg ! i) = drop 8 (request_text req) \<and>
     handle_client_request reg req =
       Some (take (MAX_BUFFER_SIZE - 1) (context_dump (reg ! i))) \<and>
     (length (context_dump (reg ! i)) < MAX_BUFFER_SIZE \<longrightarrow>
        handle_client_request reg req = Some (context_dump (reg ! i)))"
proof (intro impI)
  assume a: "req \<noteq> [] \<and> take 8 (request_text req) = ''context:'' \<and>
    find_session reg (drop 8 (request_text req)) = Some i"
  then have "request_text req \<noteq> ''status''" by auto
  with a have answer: "handle_client_request reg req =
      Some (take (MAX_BUFFER_SIZE - 1) (context_dump (reg ! i)))"
    by (simp add: handle_client_request_def snprintf_def MAX_BUFFER_SIZE_def)
  from a have "i < length reg" "session_id (reg ! i) = drop 8 (request_text req)"
    by (auto dest: find_session_bound find_session_id)
  with answer show "i < length reg \<and> session_id (reg ! i) = drop 8 (request_text req) \<and>
     handle_client_request reg req =
       Some (take (MAX_BUFFER_SIZE - 1) (context_dump (reg ! i))) \<and>
     (length (context_dump (reg ! i)) < MAX_BUFFER_SIZE \<longrightarrow>
        handle_client_request reg req = Some (context_dump (reg ! i)))"
    by simp
qed

theorem context_response_witness:
  "''context:main'' \<noteq> [] \<and> take 8 (request_text ''context:main'') = ''context:'' \<and>
   find_session [big_session, deep_session] (drop 8 (request_text ''context:main'')) = Some 0 \<and>
   handle_client_request [big_session, deep_session] ''context:main'' =
     Some (take (MAX_BUFFER_SIZE - 1) (context_dump big_session)) \<and>
   length (context_dump deep_session) < MAX_BUFFER_SIZE \<and>
   handle_client_request [deep_session] ''context:main'' = Some (context_dump deep_session)"
proof -
  have plain: "request_text ''context:main'' = ''context:main''"
    by (simp add: request_text_def cstr_def MAX_BUFFER_SIZE_def)
  have big: "''context:main'' \<noteq> [] \<and> take 8 (request_text ''context:main'') = ''context:'' \<and>
      find_session [big_session, deep_session] (drop 8 (request_text ''context:main'')) = Some 0"
    by (simp add: plain big_session_def)
  have deep: "''context:main'' \<noteq> [] \<and> take 8 (request_text ''context:main'') = ''context:'' \<and>
      find_session [deep_session] (drop 8 (request_text ''context:main'')) = Some 0"
    by (simp add: plain deep_session_def)
  have short: "length (context_dump deep_session) < MAX_BUFFER_SIZE"
    by (simp add: context_dump_def deep_session_def string_of_int_def string_of_nat.simps
        MAX_BUFFER_SIZE_def)
  note first = context_response [of "''context:main''" "[big_session, deep_session]" 0,
      THEN mp, OF big]
  note second = context_response [of "''context:main''" "[deep_session]" 0, THEN mp, OF deep]
  from first have "handle_client_request [big_session, deep_session] ''context:main'' =
      Some (take (MAX_BUFFER_SIZE - 1) (context_dump ([big_session, deep_session] ! 0)))"
    by blast
  then have "handle_client_request [big_session, deep_session] ''context:main'' =
      Some (take (MAX_BUFFER_SIZE - 1) (context_dump big_session))"
    by (simp only: nth_Cons_0)
  moreover from short have "length (context_dump ([deep_session] ! 0)) < MAX_BUFFER_SIZE"
    by (simp only: nth_Cons_0)
  with second have "handle_client_request [deep_session] ''context:main'' =
      Some (context_dump ([deep_session] ! 0))"
    by blast
  then have "handle_client_request [deep_session] ''context:main'' =
      Some (context_dump deep_session)"
    by (simp only: nth_Cons_0)
  ultimately show ?thesis
    using big short by blast
qed


section \<open>Order of the list response\<close>

lemma session_info_length: "length (session_info s) \<le> 255"
  by (simp add: session_info_def snprintf_def)

lemma list_lines_concat:
  "length response + 255 * length reg < MAX_BUFFER_SIZE \<Longrightarrow>
   list_lines reg response = response @ concat (map session_info reg)"
proof (induction reg arbitrary: response)
  case Nil
  then show ?case by simp
next
  case (Cons s reg)
  have fits: "length (session_info s) \<le> MAX_BUFFER_SIZE - length response - 1"
    using Cons.prems session_info_length [of s] by simp
  have "length (response @ session_info s) + 255 * length reg < MAX_BUFFER_SIZE"
    using Cons.prems session_info_length [of s] by simp
  then have "list_lines reg (response @ session_info s) =
      (response @ session_info s) @ concat (map session_info reg)"
    by (rule Cons.IH)
  with fits show ?case by simp
qed

lemma handle_list:
  assumes "length reg \<le> MAX_SESSIONS"
  shows "handle_client_request reg ''list'' = Some (concat (map session_info reg))"
proof -
  have "length ([] :: string) + 255 * length reg < MAX_BUFFER_SIZE"
    using assms by (simp add: MAX_SESSIONS_def MAX_BUFFER_SIZE_def)
  then have "list_lines reg [] = [] @ concat (map session_info reg)"
    by (rule list_lines_concat)
  then show ?thesis
    by (simp add: handle_client_request_def request_text_def cstr_def MAX_BUFFER_SIZE_def)
qed

lemma session_info_line:
  "length (session_id s) + length (current_cwd s) + 4 \<le> 255 \<Longrightarrow>
   session_info s = session_id s @ '' ('' @ current_cwd s @ '')'' @ [NL]"
  by (simp add: session_info_def snprintf_def)

lemma append_pane_id [simp]:
  "session_id (append_pane pane_id title content s) = session_id s"
  by (simp add: append_pane_def Let_def)

lemma pane_step_id [simp]:
  "session_id (fst (pane_step sh line st)) = session_id (fst st)"
  by (simp add: pane_step_def split: prod.splits option.splits)

lemma pane_loop_id [simp]:
  "session_id (fst (fst (pane_loop sh tokens st))) = session_id (fst st)"
  by (induction tokens arbitrary: st) simp_all

lemma capture_active_id [simp]:
  "session_id (capture_active sh s) = session_id s"
  by (simp add: capture_active_def split: option.splits prod.splits)

lemma capture_all_panes_id:
  "capture_all_panes sh tokens s = (rc, s', tokens') \<Longrightarrow> session_id s' = session_id s"
proof -
  assume r: "capture_all_panes sh tokens s = (rc, s', tokens')"
  let ?s0 = "s\<lparr>scrollback := [], scrollback_len := 0\<rparr>"
  show ?thesis
  proof (cases "execute_tmux_command sh (list_panes_cmd (session_id s)) 2048")
    case (Inl e)
    with r show ?thesis by (auto simp: capture_all_panes_def)
  next
    case (Inr pane_list)
    show ?thesis
    proof (cases "length pane_list = 0")
      case True
      with r Inr show ?thesis by (auto simp: capture_all_panes_def)
    next
      case False
      obtain s1 n rest where l: "pane_loop sh (strtok_tokens pane_list) (?s0, 0) = ((s1, n), rest)"
        by (metis surj_pair)
      have "session_id (fst (fst (pane_loop sh (strtok_tokens pane_list) (?s0, 0)))) = session_id (fst (?s0, 0::nat))"
        by (rule pane_loop_id)
      with l have "session_id s1 = session_id s" by simp
      with r Inr False l show ?thesis
        by (auto simp: capture_all_panes_def split: if_splits)
    qed
  qed
qed

lemma update_session_context_id:
  "update_session_context sh now tokens s = (rc, s', tokens') \<Longrightarrow> session_id s' = session_id s"
  by (auto simp: update_session_context_def Let_def split: prod.splits sum.splits
      dest!: capture_all_panes_id)

lemma keeps_entries_refl: "keeps_entries reg reg"
  by (simp add: keeps_entries_def)

lemma keeps_entries_trans:
  "keeps_entries a b \<Longrightarrow> keeps_entries b c \<Longrightarrow> keeps_entries a c"
proof -
  assume ab: "keeps_entries a b" and bc: "keeps_entries b c"
  then have le: "length a \<le> length b" "length b \<le> length c"
    by (simp_all add: keeps_entries_def)
  have "take (length a) (map session_id c) = take (length a) (take (length b) (map session_id c))"
    using le by (simp add: min_def)
  also have "\<dots> = take (length a) (map session_id b)"
    using bc by (simp add: keeps_entries_def)
  also have "\<dots> = map session_id a"
    using ab by (simp add: keeps_entries_def)
  finally show ?thesis using le by (simp add: keeps_entries_def)
qed

lemma create_if_absent_keeps:
  "create_if_absent now reg sid = (r, reg1) \<Longrightarrow> keeps_entries reg reg1"
  by (auto simp: create_if_absent_def create_session_def keeps_entries_def
      split: option.splits if_splits)

lemma create_if_absent_index:
  "create_if_absent now reg sid = (Some i, reg1) \<Longrightarrow> i < length reg1"
  by (auto simp: create_if_absent_def create_session_def
      split: option.splits if_splits dest: find_session_bound)

lemma update_keeps:
  "i < length reg \<Longrightarrow> session_id s = session_id (reg ! i) \<Longrightarrow> keeps_entries reg (reg[i := s])"
  by (simp add: keeps_entries_def map_update list_update_same_conv)

lemma scan_loop_keeps:
  "scan_loop fuel sh now tokens reg = Some reg' \<Longrightarrow> keeps_entries reg reg'"
proof (induction fuel sh now tokens reg rule: scan_loop.induct)
  case (1 fuel sh now reg)
  then show ?case by (simp add: keeps_entries_refl)
next
  case (2 sh now line rest reg)
  then show ?case by simp
next
  case (3 fuel sh now line rest reg)
  obtain r reg1 where c: "create_if_absent now reg line = (r, reg1)"
    by (cases "create_if_absent now reg line")
  then have k1: "keeps_entries reg reg1"
    by (rule create_if_absent_keeps)
  show ?case
  proof (cases r)
    case None
    with 3 c have "keeps_entries reg1 reg'" by simp
    with k1 show ?thesis by (rule keeps_entries_trans)
  next
    case (Some i)
    obtain rc s rest' where u: "update_session_context sh now rest (reg1 ! i) = (rc, s, rest')"
      by (cases "update_session_context sh now rest (reg1 ! i)")
    from c Some have i: "i < length reg1"
      by (simp add: create_if_absent_index)
    from u have "session_id s = session_id (reg1 ! i)"
      by (rule update_session_context_id)
    with i have k2: "keeps_entries reg1 (reg1[i := s])"
      by (rule update_keeps)
    from "3.prems" c Some u have "scan_loop fuel sh now rest' (reg1[i := s]) = Some reg'"
      by simp
    with "3.IH"(2) c Some u have "keeps_entries (reg1[i := s]) reg'"
      by simp
    with k1 k2 show ?thesis by (blast intro: keeps_entries_trans)
  qed
qed

lemma scan_tmux_sessions_keeps:
  "scan_tmux_sessions fuel sh now reg = Some (rc, reg') \<Longrightarrow> keeps_entries reg reg'"
  by (auto simp: scan_tmux_sessions_def keeps_entries_refl split: sum.splits
      dest: scan_loop_keeps)

lemma poll_cycles_keeps:
  "poll_cycles cs reg = Some reg' \<Longrightarrow> keeps_entries reg reg'"
proof (induction cs arbitrary: reg)
  case Nil
  then show ?case by (simp add: keeps_entries_refl)
next
  case (Cons c cs)
  then obtain rc reg1 where
    s: "scan_tmux_sessions (cycle_fuel c) (cycle_shell c) (cycle_now c) reg = Some (rc, reg1)"
    and p: "poll_cycles cs reg1 = Some reg'"
    by (auto split: option.splits)
  from s have "keeps_entries reg reg1" by (rule scan_tmux_sessions_keeps)
  moreover from p have "keeps_entries reg1 reg'" by (rule Cons.IH)
  ultimately show ?case by (rule keeps_entries_trans)
qed


lemma scan_loop_length:
  "scan_loop fuel sh now tokens reg = Some reg' \<Longrightarrow> length reg \<le> MAX_SESSIONS \<Longrightarrow>
   length reg' \<le> MAX_SESSIONS"
proof (induction fuel sh now tokens reg rule: scan_loop.induct)
  case (1 fuel sh now reg)
  then show ?case by simp
next
  case (2 sh now line rest reg)
  then show ?case by simp
next
  case (3 fuel sh now line rest reg)
  obtain r reg1 where c: "create_if_absent now reg line = (r, reg1)"
    by (cases "create_if_absent now reg line")
  have l1: "length reg1 \<le> MAX_SESSIONS"
    using create_if_absent_length [OF "3.prems"(2), of now line] c by simp
  show ?case
  proof (cases r)
    case None
    with 3 c l1 show ?thesis by simp
  next
    case (Some i)
    obtain rc s rest' where u: "update_session_context sh now rest (reg1 ! i) = (rc, s, rest')"
      by (cases "update_session_context sh now rest (reg1 ! i)")
    from "3.prems" c Some u have "scan_loop fuel sh now rest' (reg1[i := s]) = Some reg'"
      by simp
    moreover from l1 have "length (reg1[i := s]) \<le> MAX_SESSIONS"
      by simp
    ultimately show ?thesis
      using "3.IH"(2) c Some u by simp
  qed
qed

lemma poll_cycles_length:
  "poll_cycles cs reg = Some reg' \<Longrightarrow> length reg \<le> MAX_SESSIONS \<Longrightarrow>
   length reg' \<le> MAX_SESSIONS"
proof (induction cs arbitrary: reg)
  case Nil
  then show ?case by simp
next
  case (Cons c cs)
  then obtain rc reg1 where
    s: "scan_tmux_sessions (cycle_fuel c) (cycle_shell c) (cycle_now c) reg = Some (rc, reg1)"
    and p: "poll_cycles cs reg1 = Some reg'"
    by (auto split: option.splits)
  from s Cons.prems(2) have "length reg1 \<le> MAX_SESSIONS"
    by (auto simp: scan_tmux_sessions_def split: sum.splits dest: scan_loop_length)
  with p show ?case by (rule Cons.IH)
qed

text \<open>
  The fuel is enough whenever no refresh leaves strtok with more tokens than it had:
  then a scan ends within as many passes as the session listing has names.
\<close>

lemma scan_loop_finishes:
  assumes calm: "\<And>rest s. length (snd (snd (update_session_context sh now rest s))) \<le> length rest"
  shows "length tokens \<le> fuel \<Longrightarrow> \<exists>reg'. scan_loop fuel sh now tokens reg = Some reg'"
proof (induction fuel arbitrary: tokens reg)
  case 0
  then show ?case by simp
next
  case (Suc fuel)
  show ?case
  proof (cases tokens)
    case Nil
    then show ?thesis by simp
  next
    case (Cons line rest)
    obtain r reg1 where c: "create_if_absent now reg line = (r, reg1)"
      by (cases "create_if_absent now reg line")
    from Suc.prems Cons have short: "length rest \<le> fuel"
      by simp
    show ?thesis
    proof (cases r)
      case None
      with Suc.IH [OF short, of reg1] Cons c show ?thesis by simp
    next
      case (Some i)
      obtain rc s rest' where u: "update_session_context sh now rest (reg1 ! i) = (rc, s, rest')"
        by (cases "update_session_context sh now rest (reg1 ! i)")
      have "length (snd (snd (update_session_context sh now rest (reg1 ! i)))) \<le> length rest"
        by (rule calm)
      with u short have "length rest' \<le> fuel"
        by simp
      from Suc.IH [OF this, of "reg1[i := s]"] Cons c Some u show ?thesis
        by simp
    qed
  qed
qed

lemma create_if_absent_appends:
  "find_session reg sid = None \<Longrightarrow> length reg < MAX_SESSIONS \<Longrightarrow>
   create_if_absent now reg sid = (Some (length reg), reg @ [new_session now sid])"
  by (simp add: create_if_absent_def create_session_def)

text \<open>
  C10, as stated, fails in its "one line per session": an entry of the list response is
  cut to the 255 bytes of \<^verbatim>\<open>session_info\<close>, so the entry of a session whose working
  directory has a long path loses its closing newline. With that session and a second
  one in the registry the response holds a single newline.
\<close>

theorem list_one_line_counterexample:
  "length [deep_session, new_session 0 ''work''] = 2 \<and>
   length (filter (\<lambda>c. c = NL)
     (the (handle_client_request [deep_session, new_session 0 ''work''] ''list''))) = 1"
proof -
  have "length [deep_session, new_session 0 ''work''] \<le> MAX_SESSIONS"
    by (simp add: MAX_SESSIONS_def)
  then have "handle_client_request [deep_session, new_session 0 ''work''] ''list'' =
      Some (concat (map session_info [deep_session, new_session 0 ''work'']))"
    by (rule handle_list)
  moreover have "session_info deep_session = ''main (/'' @ replicate 248 (CHR ''d'')"
    by (simp add: session_info_def deep_session_def snprintf_def)
  moreover have "session_info (new_session 0 ''work'') = ''work ()'' @ [NL]"
    by (simp add: session_info_def new_session_def snprintf_def strncpy_def)
  ultimately show ?thesis
    by (simp add: NL_def)
qed

text \<open>
  C10, amended. The list response is the concatenation, in the order of the registry, of
  one entry per session: the text \<^verbatim>\<open><id> (<cwd>)\<close> and a newline, cut to its first 255
  bytes, which is the whole line when id and directory together have at most 251 bytes.
  A session not yet in a registry with room is appended at the end. A sequence of poll
  cycles that ends leaves every entry at its index and under its id, so the order of
  two sessions' entries never changes, and keeps the registry within its capacity.
\<close>

theorem list_order:
  "(length reg \<le> MAX_SESSIONS \<longrightarrow>
      handle_client_request reg ''list'' = Some (concat (map session_info reg))) \<and>
   session_info s = take 255 (session_id s @ '' ('' @ current_cwd s @ '')'' @ [NL]) \<and>
   (length (session_id s) + length (current_cwd s) + 4 \<le> 255 \<longrightarrow>
      session_info s = session_id s @ '' ('' @ current_cwd s @ '')'' @ [NL]) \<and>
   (find_session reg sid = None \<and> length reg < MAX_SESSIONS \<longrightarrow>
      snd (create_if_absent now reg sid) = reg @ [new_session now sid]) \<and>
   (poll_cycles cycles reg = Some reg' \<longrightarrow>
      length reg \<le> length reg' \<and>
      take (length reg) (map session_id reg') = map session_id reg \<and>
      (length reg \<le> MAX_SESSIONS \<longrightarrow> length reg' \<le> MAX_SESSIONS))"
proof (intro conjI impI)
  assume "poll_cycles cycles reg = Some reg'"
  then have "keeps_entries reg reg'"
    by (rule poll_cycles_keeps)
  then show "length reg \<le> length reg'"
    and "take (length reg) (map session_id reg') = map session_id reg"
    by (simp_all add: keeps_entries_def)
qed (simp_all add: handle_list session_info_line create_if_absent_appends poll_cycles_length
    session_info_def snprintf_def)

lemma two_sessions_scan:
  "poll_cycles [two_sessions_cycle] [new_session 3 ''main''] =
     Some [new_session 7 ''main'', new_session 7 ''work'']"
  by (simp add: two_sessions_cycle_def scan_tmux_sessions_def sessions_only_shell_def
      list_sessions_cmd_def execute_tmux_command_def read_loop_take size_minus_one_def
      strip_newline_def strtok_tokens_def NL_def SQ_def MAX_BUFFER_SIZE_def
      create_if_absent_def create_session_def new_session_def strncpy_def MAX_SESSIONS_def
      update_session_context_def capture_all_panes_def capture_active_def
      capture_active_cmd_def fread_def snprintf_def list_panes_cmd_def)

theorem list_order_witness:
  "length [new_session 3 ''main''] \<le> MAX_SESSIONS \<and>
   poll_cycles [two_sessions_cycle] [new_session 3 ''main''] =
     Some [new_session 7 ''main'', new_session 7 ''work''] \<and>
   length [new_session 3 ''main''] \<le> length [new_session 7 ''main'', new_session 7 ''work''] \<and>
   take (length [new_session 3 ''main''])
       (map session_id [new_session 7 ''main'', new_session 7 ''work'']) =
     map session_id [new_session 3 ''main''] \<and>
   handle_client_request [new_session 3 ''main''] ''list'' = Some (''main ()'' @ [NL]) \<and>
   handle_client_request [new_session 7 ''main'', new_session 7 ''work''] ''list'' =
     Some (''main ()'' @ [NL] @ ''work ()'' @ [NL]) \<and>
   find_session [new_session 3 ''main''] ''work'' = None \<and>
   snd (create_if_absent 7 [new_session 3 ''main''] ''work'') =
     [new_session 3 ''main''] @ [new_session 7 ''work'']"
proof -
  let ?before = "[new_session 3 ''main'']"
  let ?after = "[new_session 7 ''main'', new_session 7 ''work'']"
  have small: "length ?before \<le> MAX_SESSIONS" "length ?after \<le> MAX_SESSIONS"
    by (simp_all add: MAX_SESSIONS_def)
  have absent: "find_session ?before ''work'' = None \<and> length ?before < MAX_SESSIONS"
    by (simp add: new_session_def strncpy_def MAX_SESSIONS_def)
  note before = list_order [of ?before "new_session 3 ''main''" "''work''" 7
      "[two_sessions_cycle]" ?after]
  note after = list_order [of ?after "new_session 7 ''work''" "''work''" 7 "[]" ?after]
  from before two_sessions_scan
  have kept: "length ?before \<le> length ?after \<and>
      take (length ?before) (map session_id ?after) = map session_id ?before"
    by blast
  from before small(1)
  have "handle_client_request ?before ''list'' = Some (concat (map session_info ?before))"
    by blast
  then have one: "handle_client_request ?before ''list'' = Some (''main ()'' @ [NL])"
    by (simp add: session_info_def new_session_def snprintf_def strncpy_def)
  from after small(2)
  have "handle_client_request ?after ''list'' = Some (concat (map session_info ?after))"
    by blast
  then have two: "handle_client_request ?after ''list'' =
      Some (''main ()'' @ [NL] @ ''work ()'' @ [NL])"
    by (simp add: session_info_def new_session_def snprintf_def strncpy_def)
  from before absent
  have new: "snd (create_if_absent 7 ?before ''work'') = ?before @ [new_session 7 ''work'']"
    by blast
  from small(1) two_sessions_scan kept one two absent new show ?thesis
    by blast
qed

section \<open>Properties of the pane capture engine\<close>

lemma parse_pane_line_bounds:
  "length (pane_id_of line) \<le> 31 \<and> length (pane_title_of line) \<le> 63"
  by (simp add: pane_id_of_def pane_title_of_def parse_pane_line_def strncpy_def Let_def)

lemma pane_header_length:
  "length (pane_header pane_id title) = 18 + length pane_id + length title"
  by (simp add: pane_header_def)


lemma append_pane_fits:
  assumes ok: "scrollback_len s = length (scrollback s)"
    and room: "scrollback_len s < MAX_BUFFER_SIZE - 500"
    and id: "length pane_id \<le> 31" and title: "length title \<le> 63"
  shows "append_pane pane_id title content s =
     s\<lparr>scrollback := scrollback s @ pane_header pane_id title @
          take (MAX_BUFFER_SIZE - 1 - length (scrollback s) - length (pane_header pane_id title))
            content,
       scrollback_len := length (scrollback s) + length (pane_header pane_id title) +
          min (length content)
            (MAX_BUFFER_SIZE - 1 - length (scrollback s) - length (pane_header pane_id title))\<rparr>"
proof -
  define header where "header = pane_header pane_id title"
  define avail where "avail = MAX_BUFFER_SIZE - (scrollback_len s + length header) - 1"
  have h: "length header \<le> 112"
    using id title by (simp add: header_def pane_header_length)
  have h0: "header \<noteq> []"
    by (simp add: header_def pane_header_def)
  from room have u: "scrollback_len s + 500 < MAX_BUFFER_SIZE"
    by simp
  have kept: "take (scrollback_len s) (scrollback s) = scrollback s"
    by (simp add: ok)
  have printed: "snprintf (MAX_BUFFER_SIZE - scrollback_len s) header = header"
    using u h by (simp add: snprintf_def)
  have advance: "scrollback_len s + length header < MAX_BUFFER_SIZE"
    using u h by simp
  have pos: "0 < avail"
    using u h by (simp add: avail_def)
  have "append_pane pane_id title content s =
      (let s2 = s\<lparr>scrollback := scrollback s @ header,
                  scrollback_len := scrollback_len s + length header\<rparr>;
           copy_len = (if length content < avail then length content else avail)
       in if copy_len > 0 then
            s2\<lparr>scrollback := take (scrollback_len s2) (scrollback s2) @ take copy_len content,
               scrollback_len := scrollback_len s2 + copy_len\<rparr>
          else s2)"
    using h0 advance
    by (simp add: append_pane_def Let_def header_def [symmetric] kept printed avail_def)
  also have "\<dots> = s\<lparr>scrollback := scrollback s @ header @ take avail content,
      scrollback_len := scrollback_len s + length header + min (length content) avail\<rparr>"
  proof (cases "content = []")
    case True
    then show ?thesis by (simp add: Let_def)
  next
    case False
    with pos show ?thesis
      by (simp add: Let_def ok min_def)
  qed
  finally show ?thesis
    by (simp add: avail_def header_def [symmetric] ok)
qed

lemma pane_step_unfold:
  "pane_step sh line (s, n) =
     (if self_excluded line then (s, n)
      else (case sh (capture_pane_cmd (session_id s) (pane_id_of line)) of
              None \<Rightarrow> (s, n)
            | Some p \<Rightarrow>
                if length (take (MAX_BUFFER_SIZE - 1) (stdout p)) > 10
                then (append_pane (pane_id_of line) (pane_title_of line)
                        (take (MAX_BUFFER_SIZE - 1) (stdout p)) s, n + 1)
                else (s, n)))"
proof -
  obtain pane_id title command where p: "parse_pane_line line = (pane_id, title, command)"
    by (cases "parse_pane_line line") auto
  then show ?thesis
    by (simp add: pane_step_def self_excluded_def pane_id_of_def pane_title_of_def fread_def
        split: option.splits)
qed

lemma append_pane_ok:
  assumes "buffer_ok s" "scrollback_len s < MAX_BUFFER_SIZE - 500"
  shows "buffer_ok (append_pane (pane_id_of line) (pane_title_of line) content s)"
proof -
  from assms(1) have ok: "scrollback_len s = length (scrollback s)"
    by (simp add: buffer_ok_def)
  note b = parse_pane_line_bounds [of line]
  have h: "length (pane_header (pane_id_of line) (pane_title_of line)) \<le> 112"
    using b by (simp add: pane_header_length)
  from assms(2) ok have u: "length (scrollback s) + 500 < MAX_BUFFER_SIZE"
    by simp
  have "append_pane (pane_id_of line) (pane_title_of line) content s =
     s\<lparr>scrollback := scrollback s @ pane_header (pane_id_of line) (pane_title_of line) @
          take (MAX_BUFFER_SIZE - 1 - length (scrollback s) -
                length (pane_header (pane_id_of line) (pane_title_of line))) content,
       scrollback_len := length (scrollback s) +
          length (pane_header (pane_id_of line) (pane_title_of line)) +
          min (length content)
            (MAX_BUFFER_SIZE - 1 - length (scrollback s) -
             length (pane_header (pane_id_of line) (pane_title_of line)))\<rparr>"
    using ok assms(2) b by (intro append_pane_fits) simp_all
  then show ?thesis
    using u h by (simp add: buffer_ok_def)
qed

lemma pane_step_ok:
  assumes "buffer_ok (fst st)" "scrollback_len (fst st) < MAX_BUFFER_SIZE - 500"
  shows "buffer_ok (fst (pane_step sh line st))"
proof -
  obtain s n where st: "st = (s, n)" by (cases st)
  with assms show ?thesis
    by (simp add: pane_step_unfold append_pane_ok split: option.splits)
qed

lemma pane_loop_ok:
  "buffer_ok (fst st) \<Longrightarrow> buffer_ok (fst (fst (pane_loop sh tokens st)))"
  by (induction tokens arbitrary: st) (simp_all add: pane_step_ok)

lemma capture_active_ok:
  "buffer_ok s \<Longrightarrow> buffer_ok (capture_active sh s)"
  by (auto simp: capture_active_def buffer_ok_def fread_def MAX_BUFFER_SIZE_def min_def
      split: option.splits)

lemma capture_all_panes_ok:
  "buffer_ok (fst (snd (capture_all_panes sh tokens session)))"
proof -
  let ?s = "session\<lparr>scrollback := [], scrollback_len := 0\<rparr>"
  have start: "buffer_ok ?s"
    by (simp add: buffer_ok_def MAX_BUFFER_SIZE_def)
  show ?thesis
  proof (cases "execute_tmux_command sh (list_panes_cmd (session_id session)) 2048")
    case (Inl e)
    with start show ?thesis by (simp add: capture_all_panes_def)
  next
    case (Inr pane_list)
    show ?thesis
    proof (cases "length pane_list = 0")
      case True
      with Inr start show ?thesis
        by (simp add: capture_all_panes_def capture_active_ok)
    next
      case False
      obtain s1 n rest where l: "pane_loop sh (strtok_tokens pane_list) (?s, 0) = ((s1, n), rest)"
        by (metis surj_pair)
      have "buffer_ok (fst (fst (pane_loop sh (strtok_tokens pane_list) (?s, 0))))"
        using start by (intro pane_loop_ok) simp
      with l have "buffer_ok s1" by simp
      with Inr False l show ?thesis
        by (simp add: capture_all_panes_def capture_active_ok)
    qed
  qed
qed

lemma pane_loop_stops:
  "MAX_BUFFER_SIZE - 500 \<le> scrollback_len (fst st) \<Longrightarrow> pane_loop sh (line # rest) st = (st, rest)"
  by simp

lemma pane_step_appends:
  assumes ok: "scrollback_len s = length (scrollback s)"
    and room: "scrollback_len s < MAX_BUFFER_SIZE - 500"
    and listed: "\<not> self_excluded line"
    and started: "sh (capture_pane_cmd (session_id s) (pane_id_of line)) = Some p"
    and content: "10 < length (stdout p)"
  shows "pane_step sh line (s, n) =
     (let header = pane_header (pane_id_of line) (pane_title_of line);
          room_left = MAX_BUFFER_SIZE - 1 - length (scrollback s) - length header
      in (s\<lparr>scrollback := scrollback s @ header @ take room_left (stdout p),
            scrollback_len := length (scrollback s) + length header +
               min (length (stdout p)) room_left\<rparr>, n + 1))"
proof -
  define header where "header = pane_header (pane_id_of line) (pane_title_of line)"
  define room_left where "room_left = MAX_BUFFER_SIZE - 1 - length (scrollback s) - length header"
  define temp where "temp = take (MAX_BUFFER_SIZE - 1) (stdout p)"
  note b = parse_pane_line_bounds [of line]
  have le: "room_left \<le> MAX_BUFFER_SIZE - 1"
    by (simp add: room_left_def)
  have t1: "take room_left temp = take room_left (stdout p)"
    using le by (simp add: temp_def min_def)
  have t2: "min (length temp) room_left = min (length (stdout p)) room_left"
    using le by (simp add: temp_def min_def)
  have "append_pane (pane_id_of line) (pane_title_of line) temp s =
     s\<lparr>scrollback := scrollback s @ header @ take room_left temp,
       scrollback_len := length (scrollback s) + length header + min (length temp) room_left\<rparr>"
    unfolding header_def room_left_def using ok room b by (intro append_pane_fits) simp_all
  then have "append_pane (pane_id_of line) (pane_title_of line) temp s =
     s\<lparr>scrollback := scrollback s @ header @ take room_left (stdout p),
       scrollback_len := length (scrollback s) + length header +
         min (length (stdout p)) room_left\<rparr>"
    by (simp only: t1 t2)
  moreover have "pane_step sh line (s, n) =
      (append_pane (pane_id_of line) (pane_title_of line) temp s, n + 1)"
    using listed started content by (simp add: pane_step_unfold temp_def MAX_BUFFER_SIZE_def)
  ultimately show ?thesis
    by (simp add: Let_def header_def room_left_def)
qed

text \<open>
  C6. After any run of the capture engine the recorded length is the length of the
  scrollback text and is below the size of the buffer. A pane that the loop appends
  contributes its whole header and then its content cut to the room left before the
  last byte of the buffer. Once the recorded length has reached the buffer size less
  500, the loop takes no further line.
\<close>

theorem scrollback_bounded:
  "scrollback_len (fst (snd (capture_all_panes sh tokens session))) =
     length (scrollback (fst (snd (capture_all_panes sh tokens session)))) \<and>
   scrollback_len (fst (snd (capture_all_panes sh tokens session))) < MAX_BUFFER_SIZE \<and>
   (scrollback_len s = length (scrollback s) \<and> scrollback_len s < MAX_BUFFER_SIZE - 500 \<and>
    \<not> self_excluded line \<and>
    sh (capture_pane_cmd (session_id s) (pane_id_of line)) = Some p \<and> 10 < length (stdout p) \<longrightarrow>
      pane_step sh line (s, n) =
        (let header = pane_header (pane_id_of line) (pane_title_of line);
             room_left = MAX_BUFFER_SIZE - 1 - length (scrollback s) - length header
         in (s\<lparr>scrollback := scrollback s @ header @ take room_left (stdout p),
               scrollback_len := length (scrollback s) + length header +
                  min (length (stdout p)) room_left\<rparr>, n + 1))) \<and>
   (MAX_BUFFER_SIZE - 500 \<le> scrollback_len (fst st) \<longrightarrow>
      pane_loop sh (line # rest) st = (st, rest))"
proof (intro conjI impI)
  have "buffer_ok (fst (snd (capture_all_panes sh tokens session)))"
    by (rule capture_all_panes_ok)
  then show "scrollback_len (fst (snd (capture_all_panes sh tokens session))) =
      length (scrollback (fst (snd (capture_all_panes sh tokens session))))"
    and "scrollback_len (fst (snd (capture_all_panes sh tokens session))) < MAX_BUFFER_SIZE"
    by (simp_all add: buffer_ok_def)
next
  assume "MAX_BUFFER_SIZE - 500 \<le> scrollback_len (fst st)"
  then show "pane_loop sh (line # rest) st = (st, rest)"
    by (rule pane_loop_stops)
next
  assume "scrollback_len s = length (scrollback s) \<and> scrollback_len s < MAX_BUFFER_SIZE - 500 \<and>
    \<not> self_excluded line \<and>
    sh (capture_pane_cmd (session_id s) (pane_id_of line)) = Some p \<and> 10 < length (stdout p)"
  then show "pane_step sh line (s, n) =
        (let header = pane_header (pane_id_of line) (pane_title_of line);
             room_left = MAX_BUFFER_SIZE - 1 - length (scrollback s) - length header
         in (s\<lparr>scrollback := scrollback s @ header @ take room_left (stdout p),
               scrollback_len := length (scrollback s) + length header +
                  min (length (stdout p)) room_left\<rparr>, n + 1))"
    by (intro pane_step_appends) simp_all
qed

























lemma bash_pane_id: "pane_id_of ''0.1:bash:bash'' = ''0.1''"
  by (simp add: pane_id_of_def parse_pane_line_def strncpy_def Let_def)














lemma bash_pane_title: "pane_title_of ''0.1:bash:bash'' = ''bash''"
  by (simp add: pane_title_of_def parse_pane_line_def strncpy_def Let_def)

lemma bash_pane_listed: "\<not> self_excluded ''0.1:bash:bash''"
  by (simp add: self_excluded_def bash_pane_title)

theorem scrollback_bounded_witness:
  "scrollback_len (fst (snd (capture_all_panes verbose_shell [] nearly_full_session))) <
     MAX_BUFFER_SIZE \<and>
   pane_step verbose_shell ''0.1:bash:bash'' (nearly_full_session, 0) =
     (nearly_full_session
        \<lparr>scrollback := replicate 15000 (CHR ''x'') @ pane_header ''0.1'' ''bash'' @
            replicate 1358 (CHR ''y''),
         scrollback_len := 16383\<rparr>, 1) \<and>
   pane_loop verbose_shell [''0.1:bash:bash'', ''0.2:zsh:zsh'']
     (nearly_full_session
        \<lparr>scrollback := replicate 15000 (CHR ''x'') @ pane_header ''0.1'' ''bash'' @
            replicate 1358 (CHR ''y''),
         scrollback_len := 16383\<rparr>, 1) =
     ((nearly_full_session
        \<lparr>scrollback := replicate 15000 (CHR ''x'') @ pane_header ''0.1'' ''bash'' @
            replicate 1358 (CHR ''y''),
         scrollback_len := 16383\<rparr>, 1), [''0.2:zsh:zsh''])"
proof -
  let ?p = "\<lparr>stdout = replicate 2000 (CHR ''y''), exit_status = 0\<rparr>"
  let ?st = "(nearly_full_session
        \<lparr>scrollback := replicate 15000 (CHR ''x'') @ pane_header ''0.1'' ''bash'' @
            replicate 1358 (CHR ''y''),
         scrollback_len := 16383\<rparr>, 1::nat)"
  note b = scrollback_bounded [of verbose_shell "[]" nearly_full_session nearly_full_session
      "''0.1:bash:bash''" ?p 0 ?st "[''0.2:zsh:zsh'']"]
  have pre: "scrollback_len nearly_full_session = length (scrollback nearly_full_session) \<and>
      scrollback_len nearly_full_session < MAX_BUFFER_SIZE - 500 \<and>
      \<not> self_excluded ''0.1:bash:bash'' \<and>
      verbose_shell (capture_pane_cmd (session_id nearly_full_session)
        (pane_id_of ''0.1:bash:bash'')) = Some ?p \<and> 10 < length (stdout ?p)"
    by (simp add: nearly_full_session_def MAX_BUFFER_SIZE_def bash_pane_listed verbose_shell_def)
  have full: "MAX_BUFFER_SIZE - 500 \<le> scrollback_len (fst ?st)"
    by (simp add: MAX_BUFFER_SIZE_def)
  from b have first: "scrollback_len (fst (snd (capture_all_panes verbose_shell []
      nearly_full_session))) < MAX_BUFFER_SIZE"
    by blast
  from b pre have "pane_step verbose_shell ''0.1:bash:bash'' (nearly_full_session, 0) =
        (let header = pane_header (pane_id_of ''0.1:bash:bash'') (pane_title_of ''0.1:bash:bash'');
             room_left = MAX_BUFFER_SIZE - 1 - length (scrollback nearly_full_session) -
               length header
         in (nearly_full_session
              \<lparr>scrollback := scrollback nearly_full_session @ header @ take room_left (stdout ?p),
               scrollback_len := length (scrollback nearly_full_session) + length header +
                  min (length (stdout ?p)) room_left\<rparr>, 0 + 1))"
    by blast
  then have second: "pane_step verbose_shell ''0.1:bash:bash'' (nearly_full_session, 0) = ?st"
    by (simp add: Let_def bash_pane_id bash_pane_title pane_header_length MAX_BUFFER_SIZE_def
        nearly_full_session_def)
  from b full have third: "pane_loop verbose_shell [''0.1:bash:bash'', ''0.2:zsh:zsh''] ?st =
      (?st, [''0.2:zsh:zsh''])"
    by blast
  from first second third show ?thesis
    by blast
qed


section \<open>Session names longer than the id field\<close>

text \<open>
  \<^verbatim>\<open>create_session\<close> stores the first 63 bytes of a name and \<^verbatim>\<open>find_session\<close> compares the
  stored id with the whole name. For a name of at most 63 bytes the two agree, and
  creation is idempotent.
\<close>

lemma find_session_append:
  "find_session reg sid = None \<Longrightarrow>
   find_session (reg @ [s]) sid = (if session_id s = sid then Some (length reg) else None)"
  by (induction reg) (auto split: if_splits)

lemma create_if_absent_idempotent:
  assumes short: "length sid \<le> 63"
    and accepted: "create_if_absent now reg sid = (Some i, reg')"
  shows "find_session reg' sid = Some i \<and> create_if_absent later reg' sid = (Some i, reg')"
proof (cases "find_session reg sid")
  case (Some j)
  with accepted show ?thesis
    by (simp add: create_if_absent_def)
next
  case None
  with accepted have room: "length reg < MAX_SESSIONS"
    and i: "i = length reg" and reg': "reg' = reg @ [new_session now sid]"
    by (auto simp: create_if_absent_def create_session_def split: if_splits)
  from short have "session_id (new_session now sid) = sid"
    by (simp add: new_session_id)
  with None have "find_session reg' sid = Some i"
    by (simp add: reg' i find_session_append)
  then show ?thesis
    by (simp add: create_if_absent_def)
qed


text \<open>
  C2 at a session name of 64 bytes. The name is accepted and gets entry 0, but a find
  with the same name returns nothing, and the next createIfAbsent with the same name
  makes a second entry instead of returning the first.
\<close>

theorem long_id_not_found:
  "create_if_absent 0 [] long_name = (Some 0, [new_session 0 long_name]) \<and>
   find_session [new_session 0 long_name] long_name = None \<and>
   create_if_absent 1 [new_session 0 long_name] long_name =
     (Some 1, [new_session 0 long_name, new_session 1 long_name])"
  by (simp add: create_if_absent_def create_session_def MAX_SESSIONS_def new_session_id
      long_name_def)

text \<open>
  C3 at a session name of 64 bytes. Two poll cycles in which tmux lists the one session
  of that name leave two entries in the registry, both under the first 63 bytes of the
  name: the stored ids are not pairwise distinct.
\<close>

theorem long_id_duplicates:
  "length long_name = 64 \<and>
   poll_cycles [long_name_cycle, long_name_cycle] [] =
     Some [new_session 7 long_name, new_session 7 long_name] \<and>
   \<not> distinct (map session_id (the (poll_cycles [long_name_cycle, long_name_cycle] [])))"
proof -
  have "poll_cycles [long_name_cycle, long_name_cycle] [] =
      Some [new_session 7 long_name, new_session 7 long_name]"
    by (simp add: long_name_cycle_def long_name_def scan_tmux_sessions_def sessions_only_shell_def
      list_sessions_cmd_def execute_tmux_command_def read_loop_take size_minus_one_def
      strip_newline_def strtok_tokens_def NL_def SQ_def MAX_BUFFER_SIZE_def
      create_if_absent_def create_session_def new_session_def strncpy_def MAX_SESSIONS_def
      update_session_context_def capture_all_panes_def capture_active_def
      capture_active_cmd_def fread_def snprintf_def list_panes_cmd_def)
  then show ?thesis
    by (simp add: long_name_def)
qed


end
